theory Spec2Isabelle
  imports Main "HOL-Library.Sublist"
begin

section \<open>Python strings and the operations the two scripts use\<close>

text \<open>
  The two scripts \<^verbatim>\<open>rewrite_script.py\<close> and \<^verbatim>\<open>tmp_modify.py\<close> read a file into a
  \<^verbatim>\<open>str\<close>, edit it with \<^verbatim>\<open>in\<close>, \<^verbatim>\<open>str.index\<close>, slicing and \<^verbatim>\<open>str.replace\<close>, and
  write it back. A document is the \<^verbatim>\<open>str\<close> that \<^verbatim>\<open>read_text(encoding='utf-8')\<close>
  returns and \<^verbatim>\<open>write_text(..., encoding='utf-8')\<close> stores; it is modelled as a
  \<^typ>\<open>string\<close>, the list of the bytes of its UTF-8 encoding. Every literal of the scripts is ASCII
  except for two characters of \<^verbatim>\<open>new_markup\<close> (U+2014 and U+00D7), which are written as
  their UTF-8 bytes. The string operations themselves are polymorphic in the element type.
\<close>

datatype error =
    FileNotFoundError
  | ValueError
  | NameError
  | SystemExit string

text \<open>\<^verbatim>\<open>sub in text\<close>: some position of \<open>text\<close> starts with \<open>sub\<close>.\<close>

fun contains :: "'a list \<Rightarrow> 'a list \<Rightarrow> bool" where
  "contains sub [] = (sub = [])"
| "contains sub (x # xs) = (prefix sub (x # xs) \<or> contains sub xs)"

text \<open>
  The search inside \<^verbatim>\<open>str.index\<close>: the lowest position at which \<open>sub\<close> occurs,
  \<open>None\<close> when there is none.
\<close>

fun find_first :: "'a list \<Rightarrow> 'a list \<Rightarrow> nat option" where
  "find_first sub [] = (if sub = [] then Some 0 else None)"
| "find_first sub (x # xs) =
     (if prefix sub (x # xs) then Some 0
      else case find_first sub xs of None \<Rightarrow> None | Some i \<Rightarrow> Some (Suc i))"

text \<open>
  \<^verbatim>\<open>text.index(sub, start)\<close>: the lowest position \<open>\<ge> start\<close> at which \<open>sub\<close> occurs;
  raises \<^verbatim>\<open>ValueError\<close> when there is none (also when \<open>start\<close> lies beyond the end).
\<close>

definition index :: "'a list \<Rightarrow> 'a list \<Rightarrow> nat \<Rightarrow> error + nat" where
  "index text sub start =
     (if length text < start then Inl ValueError
      else case find_first sub (drop start text) of
             None \<Rightarrow> Inl ValueError
           | Some i \<Rightarrow> Inr (start + i))"

text \<open>
  \<^verbatim>\<open>text.replace(old, new)\<close>: every occurrence of \<open>old\<close> is replaced, scanning from the
  left and resuming behind each replaced occurrence (so the occurrences replaced do not
  overlap). With an empty \<open>old\<close>, Python puts \<open>new\<close> in front of every character and
  at the end.
\<close>

function replace :: "'a list \<Rightarrow> 'a list \<Rightarrow> 'a list \<Rightarrow> 'a list" where
  "replace old new [] = (if old = [] then new else [])"
| "replace old new (x # xs) =
     (if old = [] then new @ x # replace old new xs
      else if prefix old (x # xs) then new @ replace old new (drop (length old) (x # xs))
      else x # replace old new xs)"
  by pat_completeness auto
termination
  by (relation "measure (\<lambda>(old, new, text). length text)") (auto simp: Suc_le_eq)

section \<open>The file system\<close>

text \<open>
  The scripts touch the file system only through \<^verbatim>\<open>Path.read_text\<close> and
  \<^verbatim>\<open>Path.write_text\<close>. The store maps a path to the text of the file there. A statement
  takes the store and returns its result, a raised exception (\<open>Inl\<close>) or a value
  (\<open>Inr\<close>), together with the store it leaves behind.
\<close>

type_synonym fs = "string \<rightharpoonup> string"

type_synonym 'a prog = "fs \<Rightarrow> (error + 'a) \<times> fs"

definition read_text :: "string \<Rightarrow> string prog" where
  "read_text path fs =
     (case fs path of None \<Rightarrow> (Inl FileNotFoundError, fs) | Some text \<Rightarrow> (Inr text, fs))"

definition write_text :: "string \<Rightarrow> string \<Rightarrow> unit prog" where
  "write_text path text fs = (Inr (), fs(path \<mapsto> text))"

text \<open>A pure computation that may raise, run as a statement.\<close>

definition lift :: "error + 'a \<Rightarrow> 'a prog" where
  "lift r fs = (r, fs)"

text \<open>Sequencing: an exception ends the run with the store as it is at that point.\<close>

definition bind :: "'a prog \<Rightarrow> ('a \<Rightarrow> 'b prog) \<Rightarrow> 'b prog" where
  "bind m f fs =
     (case m fs of
        (Inl e, fs') \<Rightarrow> (Inl e, fs')
      | (Inr v, fs') \<Rightarrow> f v fs')"

section \<open>\<^verbatim>\<open>rewrite_script.py\<close>\<close>

definition html_path :: string where
  "html_path = ''demos/working-multiplayer-demo.html''"

definition script_path :: string where
  "script_path = ''new_script.js''"

definition open_tag :: string where
  \<open>open_tag = ''<script type="module">''\<close>

definition close_tag :: string where
  "close_tag = ''</script>''"

text \<open>
  Lines 7 to 9: \<^verbatim>\<open>start = html_text.index('<script type="module">')\<close>,
  \<^verbatim>\<open>end = html_text.index('</script>', start) + len('</script>')\<close>,
  \<^verbatim>\<open>html_text = html_text[:start] + script_text + html_text[end:]\<close>.
\<close>

definition splice_script :: "string \<Rightarrow> string \<Rightarrow> error + string" where
  "splice_script html_text script_text =
     (case index html_text open_tag 0 of
        Inl e \<Rightarrow> Inl e
      | Inr start \<Rightarrow>
          (case index html_text close_tag start of
             Inl e \<Rightarrow> Inl e
           | Inr i \<Rightarrow>
               (let end = i + length close_tag
                in Inr (take start html_text @ script_text @ drop end html_text))))"

definition rewrite_script :: "unit prog" where
  "rewrite_script =
     bind (read_text html_path) (\<lambda>html_text.
     bind (read_text script_path) (\<lambda>script_text.
     bind (lift (splice_script html_text script_text)) (\<lambda>html_text'.
     write_text html_path html_text')))"

section \<open>\<^verbatim>\<open>tmp_modify.py\<close>\<close>

definition index_path :: string where
  "index_path = ''public/index.html''"

text \<open>Lines 5 to 218.\<close>

definition css_insert :: string where
  \<open>css_insert =
    ''\<newline>'' @
    ''    .combat-controls {\<newline>'' @
    ''      margin-top: 20px;\<newline>'' @
    ''      display: flex;\<newline>'' @
    ''      flex-direction: column;\<newline>'' @
    ''      gap: 12px;\<newline>'' @
    ''    }\<newline>'' @
    ''\<newline>'' @
    ''    .combat-controls .control-row {\<newline>'' @
    ''      display: flex;\<newline>'' @
    ''      flex-wrap: wrap;\<newline>'' @
    ''      gap: 12px;\<newline>'' @
    ''      justify-content: center;\<newline>'' @
    ''    }\<newline>'' @
    ''\<newline>'' @
    ''    .combat-button {\<newline>'' @
    ''      flex: 1 1 140px;\<newline>'' @
    ''      min-width: 140px;\<newline>'' @
    ''      border: 1px solid rgba(148, 163, 184, 0.25);\<newline>'' @
    ''      background: linear-gradient(135deg, rgba(56, 189, 248, 0.1), rgba(30, 64, 175, 0.25));\<newline>'' @
    ''      color: #f8fafc;\<newline>'' @
    ''      padding: 12px 16px;\<newline>'' @
    ''      border-radius: 12px;\<newline>'' @
    ''      font-weight: 600;\<newline>'' @
    ''      letter-spacing: 0.02em;\<newline>'' @
    ''      display: flex;\<newline>'' @
    ''      flex-direction: column;\<newline>'' @
    ''      gap: 6px;\<newline>'' @
    ''      align-items: center;\<newline>'' @
    ''      transition: transform 0.18s ease, box-shadow 0.18s ease, border-color 0.18s ease;\<newline>'' @
    ''    }\<newline>'' @
    ''\<newline>'' @
    ''    .combat-button strong {\<newline>'' @
    ''      font-size: 0.95rem;\<newline>'' @
    ''      letter-spacing: 0.04em;\<newline>'' @
    ''    }\<newline>'' @
    ''\<newline>'' @
    ''    .combat-button span {\<newline>'' @
    ''      font-size: 0.75rem;\<newline>'' @
    ''      letter-spacing: 0.08em;\<newline>'' @
    ''      text-transform: uppercase;\<newline>'' @
    ''      color: #94a3b8;\<newline>'' @
    ''    }\<newline>'' @
    ''\<newline>'' @
    ''    .combat-button:focus-visible {\<newline>'' @
    ''      outline: 2px solid rgba(56, 189, 248, 0.6);\<newline>'' @
    ''      outline-offset: 2px;\<newline>'' @
    ''    }\<newline>'' @
    ''\<newline>'' @
    ''    .combat-button:hover {\<newline>'' @
    ''      transform: translateY(-2px);\<newline>'' @
    ''      box-shadow: 0 12px 30px rgba(2, 6, 23, 0.45);\<newline>'' @
    ''    }\<newline>'' @
    ''\<newline>'' @
    ''    .combat-button.is-active {\<newline>'' @
    ''      border-color: rgba(96, 165, 250, 0.9);\<newline>'' @
    ''      background: linear-gradient(135deg, rgba(59, 130, 246, 0.55), rgba(79, 70, 229, 0.65));\<newline>'' @
    ''      box-shadow: 0 18px 40px rgba(37, 99, 235, 0.35);\<newline>'' @
    ''    }\<newline>'' @
    ''\<newline>'' @
    ''    .combat-telemetry {\<newline>'' @
    ''      margin-top: 28px;\<newline>'' @
    ''      display: grid;\<newline>'' @
    ''      gap: 18px;\<newline>'' @
    ''      grid-template-columns: repeat(auto-fit, minmax(240px, 1fr));\<newline>'' @
    ''    }\<newline>'' @
    ''\<newline>'' @
    ''    .telemetry-card {\<newline>'' @
    ''      padding: 20px;\<newline>'' @
    ''      border-radius: 16px;\<newline>'' @
    ''      background: rgba(15, 23, 42, 0.78);\<newline>'' @
    ''      border: 1px solid rgba(148, 163, 184, 0.18);\<newline>'' @
    ''      box-shadow: 0 12px 32px rgba(2, 6, 23, 0.45);\<newline>'' @
    ''      display: flex;\<newline>'' @
    ''      flex-direction: column;\<newline>'' @
    ''      gap: 12px;\<newline>'' @
    ''    }\<newline>'' @
    ''\<newline>'' @
    ''    .telemetry-card h3 {\<newline>'' @
    ''      margin: 0;\<newline>'' @
    ''      font-size: 1rem;\<newline>'' @
    ''      text-transform: uppercase;\<newline>'' @
    ''      letter-spacing: 0.08em;\<newline>'' @
    ''      color: #bfdbfe;\<newline>'' @
    ''    }\<newline>'' @
    ''\<newline>'' @
    ''    .telemetry-list {\<newline>'' @
    ''      margin: 0;\<newline>'' @
    ''      padding: 0;\<newline>'' @
    ''      list-style: none;\<newline>'' @
    ''      display: grid;\<newline>'' @
    ''      gap: 8px;\<newline>'' @
    ''    }\<newline>'' @
    ''\<newline>'' @
    ''    .telemetry-row {\<newline>'' @
    ''      display: flex;\<newline>'' @
    ''      justify-content: space-between;\<newline>'' @
    ''      gap: 12px;\<newline>'' @
    ''      font-size: 0.9rem;\<newline>'' @
    ''      color: #cbd5f5;\<newline>'' @
    ''    }\<newline>'' @
    ''\<newline>'' @
    ''    .telemetry-label {\<newline>'' @
    ''      text-transform: uppercase;\<newline>'' @
    ''      letter-spacing: 0.06em;\<newline>'' @
    ''      font-size: 0.75rem;\<newline>'' @
    ''      color: #94a3b8;\<newline>'' @
    ''    }\<newline>'' @
    ''\<newline>'' @
    ''    .telemetry-value {\<newline>'' @
    ''      font-variant-numeric: tabular-nums;\<newline>'' @
    ''      font-weight: 600;\<newline>'' @
    ''    }\<newline>'' @
    ''\<newline>'' @
    ''    .telemetry-value.is-alert {\<newline>'' @
    ''      color: #f87171;\<newline>'' @
    ''    }\<newline>'' @
    ''\<newline>'' @
    ''    .telemetry-value.is-ready {\<newline>'' @
    ''      color: #34d399;\<newline>'' @
    ''    }\<newline>'' @
    ''\<newline>'' @
    ''    .status-effect-controls {\<newline>'' @
    ''      margin-top: 24px;\<newline>'' @
    ''      padding: 20px;\<newline>'' @
    ''      border-radius: 16px;\<newline>'' @
    ''      background: rgba(15, 23, 42, 0.7);\<newline>'' @
    ''      border: 1px solid rgba(59, 130, 246, 0.2);\<newline>'' @
    ''      box-shadow: 0 12px 28px rgba(2, 6, 23, 0.4);\<newline>'' @
    ''      display: flex;\<newline>'' @
    ''      flex-direction: column;\<newline>'' @
    ''      gap: 16px;\<newline>'' @
    ''    }\<newline>'' @
    ''\<newline>'' @
    ''    .status-effect-controls h3 {\<newline>'' @
    ''      margin: 0;\<newline>'' @
    ''      font-size: 0.95rem;\<newline>'' @
    ''      letter-spacing: 0.06em;\<newline>'' @
    ''      text-transform: uppercase;\<newline>'' @
    ''      color: #a5b4fc;\<newline>'' @
    ''    }\<newline>'' @
    ''\<newline>'' @
    ''    .status-effect-controls p {\<newline>'' @
    ''      margin: 0;\<newline>'' @
    ''      font-size: 0.85rem;\<newline>'' @
    ''      color: #94a3b8;\<newline>'' @
    ''    }\<newline>'' @
    ''\<newline>'' @
    ''    .status-buttons {\<newline>'' @
    ''      display: flex;\<newline>'' @
    ''      flex-wrap: wrap;\<newline>'' @
    ''      gap: 12px;\<newline>'' @
    ''    }\<newline>'' @
    ''\<newline>'' @
    ''    .status-button {\<newline>'' @
    ''      flex: 1 1 160px;\<newline>'' @
    ''      min-width: 140px;\<newline>'' @
    ''      border-radius: 10px;\<newline>'' @
    ''      border: 1px solid rgba(148, 163, 184, 0.25);\<newline>'' @
    ''      background: rgba(30, 64, 175, 0.2);\<newline>'' @
    ''      color: #e2e8f0;\<newline>'' @
    ''      padding: 10px 14px;\<newline>'' @
    ''      font-size: 0.85rem;\<newline>'' @
    ''      letter-spacing: 0.04em;\<newline>'' @
    ''      transition: transform 0.18s ease, box-shadow 0.18s ease, border-color 0.18s ease;\<newline>'' @
    ''    }\<newline>'' @
    ''\<newline>'' @
    ''    .status-button:hover {\<newline>'' @
    ''      transform: translateY(-1px);\<newline>'' @
    ''      box-shadow: 0 10px 24px rgba(2, 6, 23, 0.35);\<newline>'' @
    ''    }\<newline>'' @
    ''\<newline>'' @
    ''    .status-button:focus-visible {\<newline>'' @
    ''      outline: 2px solid rgba(129, 140, 248, 0.6);\<newline>'' @
    ''      outline-offset: 2px;\<newline>'' @
    ''    }\<newline>'' @
    ''\<newline>'' @
    ''    .combat-badge {\<newline>'' @
    ''      display: inline-flex;\<newline>'' @
    ''      align-items: center;\<newline>'' @
    ''      gap: 6px;\<newline>'' @
    ''      padding: 4px 10px;\<newline>'' @
    ''      border-radius: 999px;\<newline>'' @
    ''      background: rgba(59, 130, 246, 0.16);\<newline>'' @
    ''      color: #bfdbfe;\<newline>'' @
    ''      font-size: 0.75rem;\<newline>'' @
    ''      letter-spacing: 0.06em;\<newline>'' @
    ''      text-transform: uppercase;\<newline>'' @
    ''    }\<newline>'' @
    ''\<newline>'' @
    ''    @media (max-width: 720px) {\<newline>'' @
    ''      .combat-controls .control-row {\<newline>'' @
    ''        justify-content: stretch;\<newline>'' @
    ''      }\<newline>'' @
    ''\<newline>'' @
    ''      .combat-button {\<newline>'' @
    ''        flex-basis: calc(50% - 12px);\<newline>'' @
    ''      }\<newline>'' @
    ''\<newline>'' @
    ''      .status-button {\<newline>'' @
    ''        flex-basis: calc(50% - 12px);\<newline>'' @
    ''      }\<newline>'' @
    ''    }\<newline>'' @
    ''\<newline>'' @
    ''    @media (max-width: 480px) {\<newline>'' @
    ''      .combat-button {\<newline>'' @
    ''        flex-basis: 100%;\<newline>'' @
    ''      }\<newline>'' @
    ''\<newline>'' @
    ''      .status-button {\<newline>'' @
    ''        flex-basis: 100%;\<newline>'' @
    ''      }\<newline>'' @
    ''    }\<newline>''\<close>

text \<open>Line 223.\<close>

definition old_block :: string where
  \<open>old_block =
    ''      <div class="game-info" data-game-info>\<newline>'' @
    ''        <span>Status: <strong data-game-status>Idle</strong></span>\<newline>'' @
    ''        <span>Position: <strong data-game-coords>0, 0</strong></span>\<newline>'' @
    ''        <button type="button" class="game-info-button" data-center-player>Center Player</button>\<newline>'' @
    ''      </div>\<newline>'' @
    ''    </section>''\<close>

text \<open>Line 225.\<close>

definition new_markup :: string where
  \<open>new_markup =
    ''      <div class="game-info" data-game-info>\<newline>'' @
    ''        <span>Status: <strong data-game-status>Idle</strong></span>\<newline>'' @
    ''        <span>Position: <strong data-game-coords>0, 0</strong></span>\<newline>'' @
    ''        <button type="button" class="game-info-button" data-center-player>Center Player</button>\<newline>'' @
    ''      </div>\<newline>'' @
    ''      <div class="combat-controls" data-combat-controls>\<newline>'' @
    ''        <div class="control-row">\<newline>'' @
    ''          <button type="button" class="combat-button" data-combat-button="light">\<newline>'' @
    ''            <strong>Light Attack</strong>\<newline>'' @
    ''            <span>J / 1</span>\<newline>'' @
    ''          </button>\<newline>'' @
    ''          <button type="button" class="combat-button" data-combat-button="heavy">\<newline>'' @
    ''            <strong>Heavy Attack</strong>\<newline>'' @
    ''            <span>K / 2</span>\<newline>'' @
    ''          </button>\<newline>'' @
    ''          <button type="button" class="combat-button" data-combat-button="special">\<newline>'' @
    ''            <strong>Special</strong>\<newline>'' @
    ''            <span>L / 5</span>\<newline>'' @
    ''          </button>\<newline>'' @
    ''        </div>\<newline>'' @
    ''        <div class="control-row">\<newline>'' @
    ''          <button type="button" class="combat-button" data-combat-button="block" data-holdable="true">\<newline>'' @
    ''            <strong>Block / Parry</strong>\<newline>'' @
    ''            <span>Shift / 3</span>\<newline>'' @
    ''          </button>\<newline>'' @
    ''          <button type="button" class="combat-button" data-combat-button="roll">\<newline>'' @
    ''            <strong>Roll</strong>\<newline>'' @
    ''            <span>Ctrl / 4</span>\<newline>'' @
    ''          </button>\<newline>'' @
    ''          <button type="button" class="combat-button" data-combat-button="parry">\<newline>'' @
    ''            <strong>Parry Counter</strong>\<newline>'' @
    ''            <span>During Block</span>\<newline>'' @
    ''          </button>\<newline>'' @
    ''        </div>\<newline>'' @
    ''      </div>\<newline>'' @
    ''      <div class="combat-telemetry" data-combat-telemetry>\<newline>'' @
    ''        <article class="telemetry-card">\<newline>'' @
    ''          <h3>Attack &amp; Flow</h3>\<newline>'' @
    ''          <ul class="telemetry-list">\<newline>'' @
    ''            <li class="telemetry-row"><span class="telemetry-label">Attack State</span><span class="telemetry-value" data-attack-state>Offline</span></li>\<newline>'' @
    ''            <li class="telemetry-row"><span class="telemetry-label">State Timer</span><span class="telemetry-value" data-attack-timer>0.00s</span></li>\<newline>'' @
    ''            <li class="telemetry-row"><span class="telemetry-label">Combo Count</span><span class="telemetry-value" data-combo-count>0</span></li>\<newline>'' @
    ''            <li class="telemetry-row"><span class="telemetry-label">Combo Window</span><span class="telemetry-value" data-combo-window>'' @ [CHR 0xE2, CHR 0x80, CHR 0x94] @ ''</span></li>\<newline>'' @
    ''            <li class="telemetry-row"><span class="telemetry-label">Counter Ready</span><span class="telemetry-value" data-counter-ready>No</span></li>\<newline>'' @
    ''            <li class="telemetry-row"><span class="telemetry-label">Counter Window</span><span class="telemetry-value" data-counter-window>'' @ [CHR 0xE2, CHR 0x80, CHR 0x94] @ ''</span></li>\<newline>'' @
    ''          </ul>\<newline>'' @
    ''        </article>\<newline>'' @
    ''        <article class="telemetry-card">\<newline>'' @
    ''          <h3>Defense &amp; Mobility</h3>\<newline>'' @
    ''          <ul class="telemetry-list">\<newline>'' @
    ''            <li class="telemetry-row"><span class="telemetry-label">Blocking</span><span class="telemetry-value" data-block-state>No</span></li>\<newline>'' @
    ''            <li class="telemetry-row"><span class="telemetry-label">Hyperarmor</span><span class="telemetry-value" data-hyperarmor>No</span></li>\<newline>'' @
    ''            <li class="telemetry-row"><span class="telemetry-label">Armor Value</span><span class="telemetry-value" data-armor-value>0</span></li>\<newline>'' @
    ''            <li class="telemetry-row"><span class="telemetry-label">Roll State</span><span class="telemetry-value" data-roll-state>Idle</span></li>\<newline>'' @
    ''            <li class="telemetry-row"><span class="telemetry-label">Roll Timer</span><span class="telemetry-value" data-roll-timer>0.00s</span></li>\<newline>'' @
    ''            <li class="telemetry-row"><span class="telemetry-label">Stunned</span><span class="telemetry-value" data-stun-state>No</span></li>\<newline>'' @
    ''            <li class="telemetry-row"><span class="telemetry-label">Stun Remaining</span><span class="telemetry-value" data-stun-remaining>0.00s</span></li>\<newline>'' @
    ''            <li class="telemetry-row"><span class="telemetry-label">Speed</span><span class="telemetry-value" data-speed>0.00</span></li>\<newline>'' @
    ''          </ul>\<newline>'' @
    ''        </article>\<newline>'' @
    ''        <article class="telemetry-card">\<newline>'' @
    ''          <h3>Status &amp; Environment</h3>\<newline>'' @
    ''          <ul class="telemetry-list">\<newline>'' @
    ''            <li class="telemetry-row"><span class="telemetry-label">Active Effects</span><span class="telemetry-value" data-status-count>0</span></li>\<newline>'' @
    ''            <li class="telemetry-row"><span class="telemetry-label">Move Modifier</span><span class="telemetry-value" data-status-move>1.00'' @ [CHR 0xC3, CHR 0x97] @ ''</span></li>\<newline>'' @
    ''            <li class="telemetry-row"><span class="telemetry-label">Damage Modifier</span><span class="telemetry-value" data-status-damage>1.00'' @ [CHR 0xC3, CHR 0x97] @ ''</span></li>\<newline>'' @
    ''            <li class="telemetry-row"><span class="telemetry-label">Defense Modifier</span><span class="telemetry-value" data-status-defense>1.00'' @ [CHR 0xC3, CHR 0x97] @ ''</span></li>\<newline>'' @
    ''            <li class="telemetry-row"><span class="telemetry-label">Near Wall</span><span class="telemetry-value" data-wall-state>No</span></li>\<newline>'' @
    ''            <li class="telemetry-row"><span class="telemetry-label">Wall Distance</span><span class="telemetry-value" data-wall-distance>'' @ [CHR 0xE2, CHR 0x80, CHR 0x94] @ ''</span></li>\<newline>'' @
    ''            <li class="telemetry-row"><span class="telemetry-label">Near Ledge</span><span class="telemetry-value" data-ledge-state>No</span></li>\<newline>'' @
    ''            <li class="telemetry-row"><span class="telemetry-label">Ledge Distance</span><span class="telemetry-value" data-ledge-distance>'' @ [CHR 0xE2, CHR 0x80, CHR 0x94] @ ''</span></li>\<newline>'' @
    ''          </ul>\<newline>'' @
    ''        </article>\<newline>'' @
    ''      </div>\<newline>'' @
    ''      <div class="status-effect-controls">\<newline>'' @
    ''        <h3>Status Effect Sandbox</h3>\<newline>'' @
    ''        <p>Send quick status effect samples to the WASM combat layer and watch the telemetry respond. Everything uses the live exports outlined in GUIDELINES/FIGHT.</p>\<newline>'' @
    ''        <div class="status-buttons">\<newline>'' @
    ''          <button type="button" class="status-button" data-status-action="burning">Apply Burning</button>\<newline>'' @
    ''          <button type="button" class="status-button" data-status-action="stun">Apply Stun</button>\<newline>'' @
    ''          <button type="button" class="status-button" data-status-action="slow">Apply Slow</button>\<newline>'' @
    ''          <button type="button" class="status-button" data-status-action="boost">Apply Damage Boost</button>\<newline>'' @
    ''          <button type="button" class="status-button" data-status-action="clear">Clear Demo Effects</button>\<newline>'' @
    ''        </div>\<newline>'' @
    ''      </div>\<newline>'' @
    ''    </section>''\<close>

definition marker :: string where
  "marker = ''combat-controls''"

definition style_anchor :: string where
  "style_anchor = ''  </style>''"

text \<open>
  Lines 220 and 221: \<^verbatim>\<open>if 'combat-controls' not in text:\<close>
  \<^verbatim>\<open>text = text.replace('  </style>', css_insert + '\n\n  </style>')\<close>.
\<close>

definition style_inject :: "string \<Rightarrow> string" where
  "style_inject text =
     (if \<not> contains marker text
      then replace style_anchor (css_insert @ ''\<newline>\<newline>  </style>'') text
      else text)"

definition diagnostic :: string where
  "diagnostic = ''Could not locate combat insertion point''"

text \<open>
  Lines 227 to 230: \<^verbatim>\<open>if old_block in text: text = text.replace(old_block, new_markup)\<close>,
  \<^verbatim>\<open>else: raise SystemExit('Could not locate combat insertion point')\<close>.
\<close>

definition markup_replace :: "string \<Rightarrow> error + string" where
  "markup_replace text =
     (if contains old_block text then Inr (replace old_block new_markup text)
      else Inl (SystemExit diagnostic))"

text \<open>
  Line 1 is a coding comment and line 2 is \<^verbatim>\<open>path = Path('public/index.html')\<close>.
  \<^verbatim>\<open>rewrite_script.py\<close> starts with \<^verbatim>\<open>from pathlib import Path\<close>; this script has no
  import and no definition, so when line 2 runs the module has bound no name beyond the
  builtins, of which \<^verbatim>\<open>Path\<close> is none. Evaluating an unbound name raises
  \<^verbatim>\<open>NameError\<close>.
\<close>

definition module_names :: "string list" where
  "module_names = []"

definition load_name :: "string \<Rightarrow> unit prog" where
  "load_name n fs =
     (if n \<in> set module_names then (Inr (), fs) else (Inl NameError, fs))"

text \<open>
  The script: line 2 (the name \<^verbatim>\<open>Path\<close>), line 3 (\<^verbatim>\<open>read_text\<close>), lines 220 to 230
  (the two steps) and line 232 (\<^verbatim>\<open>write_text\<close>).
\<close>

definition tmp_modify :: "unit prog" where
  "tmp_modify =
     bind (load_name ''Path'') (\<lambda>_.
     bind (read_text index_path) (\<lambda>text.
     bind (lift (markup_replace (style_inject text))) (\<lambda>text'.
     write_text index_path text')))"


section \<open>Example stores\<close>

text \<open>A host document with one module script followed by a second closing tag.\<close>

definition demo_fs :: fs where
  \<open>demo_fs = [html_path \<mapsto> ''<p><script type="module">a()</script>b</script>'',
               script_path \<mapsto> ''<script>c()</script>'']\<close>

text \<open>A host document whose only script is not a module script.\<close>

definition plain_fs :: fs where
  \<open>plain_fs = [html_path \<mapsto> ''<p><script>a()</script></p>'',
                script_path \<mapsto> ''<script>c()</script>'']\<close>

text \<open>A host document whose only closing tag stands before the opening tag.\<close>

definition unclosed_fs :: fs where
  \<open>unclosed_fs = [html_path \<mapsto> ''</script><script type="module">a()'',
                   script_path \<mapsto> ''<script>c()</script>'']\<close>

text \<open>A target document with the style anchor, without the marker and the fragment.\<close>

definition unstyled_fs :: fs where
  "unstyled_fs = [index_path \<mapsto> ''<style>\<newline>  </style>\<newline><p></p>'']"

section \<open>Facts about the string operations\<close>

lemma contains_iff_sublist: "contains sub t \<longleftrightarrow> sublist sub t"
  by (induction t) (simp_all add: sublist_Cons_right)

lemma contains_length: "contains sub t \<Longrightarrow> length sub \<le> length t"
  by (simp add: contains_iff_sublist sublist_length_le)

lemma contains_appendI: "contains sub t \<Longrightarrow> contains sub (u @ t @ v)"
  unfolding contains_iff_sublist
  by (meson sublist_appendI sublist_order.order_trans)

lemma contains_trans: "contains a b \<Longrightarrow> contains b c \<Longrightarrow> contains a c"
  unfolding contains_iff_sublist by (rule sublist_order.order_trans)

lemma prefix_before_last:
  assumes "sub \<noteq> []" "u \<noteq> []" "prefix sub (u @ sub @ v)"
  shows "prefix sub (u @ butlast sub)"
proof -
  have "u @ sub @ v = (u @ butlast sub) @ (last sub # v)"
    using assms(1) by simp
  with assms(3) have "prefix sub ((u @ butlast sub) @ (last sub # v))" by simp
  then have "prefix sub (u @ butlast sub) \<or> (\<exists>us. sub = (u @ butlast sub) @ us \<and> prefix us (last sub # v))"
    unfolding prefix_append by blast
  then show ?thesis
  proof
    assume "\<exists>us. sub = (u @ butlast sub) @ us \<and> prefix us (last sub # v)"
    then obtain us where eq: "sub = (u @ butlast sub) @ us" by blast
    then have "length sub = length u + (length sub - 1) + length us"
      by (metis length_append length_butlast)
    moreover have "0 < length u" "0 < length sub" using assms(1,2) by simp_all
    ultimately have "length us = 0" by arith
    then have "us = []" by simp
    with eq have "sub = u @ butlast sub" by simp
    then show ?thesis by (metis prefix_order.order_refl)
  qed
qed

lemma find_first_None: "find_first sub t = None \<longleftrightarrow> \<not> contains sub t"
  by (induction t) (auto split: option.splits)

lemma find_first_at:
  assumes "sub \<noteq> []" "\<not> contains sub (pre @ butlast sub)"
  shows "find_first sub (pre @ sub @ post) = Some (length pre)"
  using assms
proof (induction pre)
  case Nil
  then show ?case by (cases sub) auto
next
  case (Cons a pre)
  from Cons.prems have np: "\<not> prefix sub (a # pre @ butlast sub)"
    and nc: "\<not> contains sub (pre @ butlast sub)" by auto
  have "\<not> prefix sub ((a # pre) @ sub @ post)"
    using prefix_before_last [of sub "a # pre" post] Cons.prems(1) np by auto
  with Cons.IH [OF Cons.prems(1) nc] show ?case by simp
qed

lemma replace_first:
  assumes "old \<noteq> []" "\<not> contains old (pre @ butlast old)"
  shows "replace old new (pre @ old @ post) = pre @ new @ replace old new post"
  using assms
proof (induction pre)
  case Nil
  then show ?case by (cases old) auto
next
  case (Cons a pre)
  from Cons.prems have np: "\<not> prefix old (a # pre @ butlast old)"
    and nc: "\<not> contains old (pre @ butlast old)" by auto
  have "\<not> prefix old ((a # pre) @ old @ post)"
    using prefix_before_last [of old "a # pre" post] Cons.prems(1) np by auto
  with Cons.IH [OF Cons.prems(1) nc] Cons.prems(1) show ?case by simp
qed

lemma replace_absent: "old \<noteq> [] \<Longrightarrow> \<not> contains old t \<Longrightarrow> replace old new t = t"
  by (induction t) auto

lemma contains_first:
  assumes "sub \<noteq> []" "contains sub t"
  shows "\<exists>pre post. t = pre @ sub @ post \<and> \<not> contains sub (pre @ butlast sub)"
  using assms(2)
proof (induction t)
  case Nil
  with assms(1) show ?case by simp
next
  case (Cons x xs)
  show ?case
  proof (cases "prefix sub (x # xs)")
    case True
    then obtain post where "x # xs = [] @ sub @ post" by (auto simp: prefix_def)
    moreover have "\<not> contains sub ([] @ butlast sub)"
      using contains_length [of sub "butlast sub"] assms(1) by (cases sub) auto
    ultimately show ?thesis by blast
  next
    case False
    with Cons.prems have "contains sub xs" by simp
    from Cons.IH [OF this] obtain pre post
      where eq: "xs = pre @ sub @ post" and nc: "\<not> contains sub (pre @ butlast sub)" by blast
    have "prefix (x # pre @ butlast sub) (x # xs)"
      unfolding eq using assms(1)
      by (metis Cons_prefix_Cons append_butlast_last_id prefixI append.assoc prefix_def same_prefix_prefix)
    with False have "\<not> prefix sub (x # pre @ butlast sub)"
      using prefix_order.order_trans by blast
    with nc have "\<not> contains sub ((x # pre) @ butlast sub)" by simp
    moreover have "x # xs = (x # pre) @ sub @ post" using eq by simp
    ultimately show ?thesis by blast
  qed
qed

lemma contains_append_right: "contains sub v \<Longrightarrow> contains sub (u @ v)"
  using contains_appendI [of sub v u "[]"] by simp

lemma contains_append_left: "contains sub u \<Longrightarrow> contains sub (u @ v)"
  using contains_appendI [of sub u "[]" v] by simp

lemma contains_self: "contains sub sub"
  by (simp add: contains_iff_sublist)

lemma contains_skip:
  assumes "p \<noteq> []" "hd p \<notin> set pre"
  shows "contains p (pre @ X) = contains p X"
  using assms by (induction pre) (auto simp: prefix_Cons)

subsection \<open>Occurrences by position\<close>

text \<open>\<open>p\<close> occurs in \<open>t\<close> at position \<open>i\<close> when \<open>prefix p (drop i t)\<close>.\<close>

lemma contains_iff_occurs: "contains p t \<longleftrightarrow> (\<exists>i. prefix p (drop i t))"
proof
  assume "contains p t"
  then obtain ps ss where "t = ps @ p @ ss"
    by (auto simp: contains_iff_sublist sublist_def)
  then have "prefix p (drop (length ps) t)" by simp
  then show "\<exists>i. prefix p (drop i t)" ..
next
  assume "\<exists>i. prefix p (drop i t)"
  then obtain i z where "drop i t = p @ z" by (auto simp: prefix_def)
  then have "t = take i t @ p @ z" by (metis append_take_drop_id)
  then show "contains p t" by (auto simp: contains_iff_sublist sublist_def)
qed

lemma occurs_nth:
  assumes "prefix p (drop i t)" "j < length p"
  shows "i + j < length t" and "t ! (i + j) = p ! j"
proof -
  from assms(1) obtain z where eq: "drop i t = p @ z" by (auto simp: prefix_def)
  then have "length p \<le> length (drop i t)" by simp
  with assms(2) show less: "i + j < length t" by simp
  have "drop i t ! j = p ! j" using assms(2) by (simp add: eq nth_append)
  with less show "t ! (i + j) = p ! j" by simp
qed

lemma occurs_length:
  assumes "prefix p (drop i t)" "p \<noteq> []"
  shows "i + length p \<le> length t"
  using occurs_nth(1) [OF assms(1), of "length p - 1"] assms(2) by simp

lemma occursI:
  assumes "i + length p \<le> length t" "\<And>j. j < length p \<Longrightarrow> t ! (i + j) = p ! j"
  shows "prefix p (drop i t)"
proof -
  have "take (length p) (drop i t) = p"
    using assms by (intro nth_equalityI) auto
  then show ?thesis by (metis take_is_prefix)
qed

lemma occurs_in_prefix:
  assumes "prefix t' t" "prefix p (drop i t)" "i + length p \<le> length t'"
  shows "prefix p (drop i t')"
proof (cases "p = []")
  case True
  then show ?thesis by simp
next
  case False
  from assms(1) obtain z where t: "t = t' @ z" by (auto simp: prefix_def)
  show ?thesis
  proof (rule occursI [OF assms(3)])
    fix j assume j: "j < length p"
    with assms(3) have "i + j < length t'" by simp
    then have "t ! (i + j) = t' ! (i + j)" by (simp add: t nth_append)
    with occurs_nth(2) [OF assms(2) j] show "t' ! (i + j) = p ! j" by simp
  qed
qed

lemma occurs_in_extension:
  assumes "prefix t' t" "prefix p (drop i t')" "p \<noteq> []"
  shows "prefix p (drop i t)"
proof -
  from assms(1) obtain z where t: "t = t' @ z" by (auto simp: prefix_def)
  have le: "i + length p \<le> length t'" by (rule occurs_length [OF assms(2,3)])
  show ?thesis
  proof (rule occursI)
    show "i + length p \<le> length t" using le by (simp add: t)
  next
    fix j assume j: "j < length p"
    with le have "i + j < length t'" by simp
    then have "t ! (i + j) = t' ! (i + j)" by (simp add: t nth_append)
    with occurs_nth(2) [OF assms(2) j] show "t ! (i + j) = p ! j" by simp
  qed
qed

lemma nth_middle: "k < length I \<Longrightarrow> (u @ I @ v) ! (length u + k) = I ! k"
  by (simp add: nth_append)

subsection \<open>A key that cannot straddle a boundary\<close>

lemma contains_boundary:
  assumes "y \<notin> set K"
  shows "contains K (L @ y # W) = (contains K L \<or> contains K (y # W))"
proof
  assume "contains K (L @ y # W)"
  then obtain i where occ: "prefix K (drop i (L @ y # W))"
    by (auto simp: contains_iff_occurs)
  show "contains K L \<or> contains K (y # W)"
  proof (cases "length L \<le> i")
    case True
    with occ have "prefix K (drop (i - length L) (y # W))" by simp
    then show ?thesis by (auto simp: contains_iff_occurs)
  next
    case False
    with occ have "prefix K (drop i L @ y # W)" by simp
    then consider "prefix K (drop i L)" | us where "K = drop i L @ us" "prefix us (y # W)"
      unfolding prefix_append by blast
    then show ?thesis
    proof cases
      case 1
      then show ?thesis by (auto simp: contains_iff_occurs)
    next
      case 2
      show ?thesis
      proof (cases us)
        case Nil
        with 2 have "prefix K (drop i L)" by simp
        then show ?thesis by (auto simp: contains_iff_occurs)
      next
        case (Cons u us')
        with 2 have "y \<in> set K" by auto
        with assms show ?thesis by simp
      qed
    qed
  qed
next
  assume "contains K L \<or> contains K (y # W)"
  then show "contains K (L @ y # W)"
    using contains_appendI [of K L "[]" "y # W"] contains_appendI [of K "y # W" L "[]"] by auto
qed

lemma contains_chain1:
  "y \<notin> set K \<Longrightarrow> contains K (L @ ((y # ys) @ Z)) = (contains K L \<or> contains K ((y # ys) @ Z))"
  using contains_boundary [of y K L "ys @ Z"] by simp

lemma contains_chain2:
  "y \<notin> set K \<Longrightarrow> contains K (L @ (y # ys)) = (contains K L \<or> contains K (y # ys))"
  by (rule contains_boundary)

lemma last_chain1: "last (xs @ (y # ys)) = last (y # ys)" by simp

lemma last_chain2: "last (xs @ ((y # ys) @ zs)) = last ((y # ys) @ zs)" by simp

subsection \<open>Inserting text that cannot take part in an occurrence\<close>

lemma insertion_creates_no_occurrence:
  assumes p: "p \<noteq> []" and last_p: "last p \<notin> set I" and I: "I = I1 @ [c1, c2]"
    and pair: "\<not> contains [c1, c2] p" and hd_p: "hd p \<noteq> c2"
    and occ: "contains p (u @ I @ v)"
  shows "contains p (u @ v)"
proof -
  let ?t = "u @ I @ v"
  let ?n = "length p" and ?m = "length I" and ?L = "length u"
  from occ obtain i where i: "prefix p (drop i ?t)" by (auto simp: contains_iff_occurs)
  have nth: "\<And>j. j < ?n \<Longrightarrow> ?t ! (i + j) = p ! j" by (rule occurs_nth(2) [OF i])
  have len: "i + ?n \<le> length ?t" by (rule occurs_length [OF i p])
  have m: "?m = length I1 + 2" by (simp add: I)
  have c1: "I ! (?m - 2) = c1" and c2: "I ! (?m - 1) = c2" by (simp_all add: I nth_append)
  consider (left) "i + ?n \<le> ?L" | (right) "?L + ?m \<le> i"
    | (ends_inside) "?L < i + ?n" "i + ?n \<le> ?L + ?m"
    | (covers_end) "?L + ?m < i + ?n" "i < ?L + ?m" by linarith
  then show ?thesis
  proof cases
    case left
    have "prefix p (drop i u)"
      by (rule occurs_in_prefix [OF _ i left]) simp
    then have "contains p u" by (auto simp: contains_iff_occurs)
    then show ?thesis using contains_appendI [of p u "[]" v] by simp
  next
    case right
    then have "drop i ?t = drop (i - ?L - ?m) v" by simp
    with i have "contains p v" by (auto simp: contains_iff_occurs)
    then show ?thesis using contains_appendI [of p v u "[]"] by simp
  next
    case ends_inside
    define k where "k = i + ?n - 1 - ?L"
    have np: "0 < ?n" using p by simp
    have k: "k < ?m" "i + (?n - 1) = ?L + k"
      unfolding k_def using ends_inside np by arith+
    have "p ! (?n - 1) = ?t ! (i + (?n - 1))" using nth [of "?n - 1"] p by simp
    also have "\<dots> = I ! k" unfolding k(2) by (rule nth_middle [OF k(1)])
    finally have "last p = I ! k" using p by (simp add: last_conv_nth)
    with k(1) last_p show ?thesis by (metis nth_mem)
  next
    case covers_end
    show ?thesis
    proof (cases "i + 2 \<le> ?L + ?m")
      case True
      define j where "j = ?L + ?m - 2 - i"
      have j: "Suc j < ?n" "i + j = ?L + (?m - 2)" "i + Suc j = ?L + (?m - 1)"
        using covers_end True m by (auto simp: j_def)
      have "p ! j = ?t ! (i + j)" using nth [of j] j(1) by simp
      also have "\<dots> = c1" unfolding j(2) using nth_middle [of "?m - 2" I u v] m c1 by simp
      finally have pj: "p ! j = c1" .
      have "p ! Suc j = ?t ! (i + Suc j)" using nth [of "Suc j"] j(1) by simp
      also have "\<dots> = c2" unfolding j(3) using nth_middle [of "?m - 1" I u v] m c2 by simp
      finally have pj': "p ! Suc j = c2" .
      have "prefix [c1, c2] (drop j p)"
      proof (rule occursI)
        show "j + length [c1, c2] \<le> ?n" using j(1) by simp
      next
        fix l assume "l < length [c1, c2]"
        then have "l = 0 \<or> l = 1" by auto
        then show "p ! (j + l) = [c1, c2] ! l" using pj pj' by auto
      qed
      with pair show ?thesis by (auto simp: contains_iff_occurs)
    next
      case False
      with covers_end have "i = ?L + (?m - 1)" using m by simp
      then have "?t ! (i + 0) = c2" using nth_middle [of "?m - 1" I u v] m c2 by simp
      moreover have "?t ! (i + 0) = p ! 0" using nth [of 0] p by simp
      ultimately have "hd p = c2" using p by (simp add: hd_conv_nth)
      with hd_p show ?thesis by simp
    qed
  qed
qed

lemma not_contains_butlast: "p \<noteq> [] \<Longrightarrow> \<not> contains p (butlast p)"
  using contains_length [of p "butlast p"] by (cases p) auto

lemma replace_prefix:
  assumes "old \<noteq> []"
  shows "replace old new (old @ rest) = new @ replace old new rest"
  using replace_first [OF assms, of "[]" new rest] not_contains_butlast [OF assms] by simp

lemma replace_creates_no_occurrence:
  assumes old: "old \<noteq> []"
    and ins: "\<And>u v. contains p (u @ new @ v) \<Longrightarrow> contains p (u @ old @ v)"
  shows "contains p (acc @ replace old new d) \<Longrightarrow> contains p (acc @ d)"
proof (induction d arbitrary: acc rule: length_induct)
  case (1 d)
  show ?case
  proof (cases d)
    case Nil
    with "1.prems" old show ?thesis by simp
  next
    case (Cons x xs)
    show ?thesis
    proof (cases "prefix old d")
      case True
      then obtain rest where d: "d = old @ rest" by (auto simp: prefix_def)
      have "replace old new d = new @ replace old new rest"
        unfolding d by (rule replace_prefix [OF old])
      with "1.prems" have "contains p ((acc @ new) @ replace old new rest)" by simp
      moreover have "length rest < length d" using old by (simp add: d)
      ultimately have "contains p ((acc @ new) @ rest)" using "1.IH" by blast
      then have "contains p (acc @ old @ rest)" using ins [of acc rest] by simp
      then show ?thesis by (simp add: d)
    next
      case False
      then have "replace old new d = x # replace old new xs"
        using old unfolding Cons by simp
      with "1.prems" have "contains p ((acc @ [x]) @ replace old new xs)" by simp
      moreover have "length xs < length d" by (simp add: Cons)
      ultimately have "contains p ((acc @ [x]) @ xs)" using "1.IH" by blast
      then show ?thesis by (simp add: Cons)
    qed
  qed
qed


subsection \<open>Replacing a fragment by a text that does not let it reappear\<close>

lemma no_late_occurrence:
  assumes key: "prefix K (drop off p)" and K: "K \<noteq> []"
    and unique: "\<not> contains K (drop (Suc off) r)"
    and r: "r \<noteq> []" and last_r: "last r \<notin> set (take (off + length K - 1) p)"
    and s: "0 < s" and w: "length w < length p"
  shows "\<not> prefix p (drop s (r @ w))"
proof
  assume occ: "prefix p (drop s (r @ w))"
  let ?n = "length p" and ?k = "length K"
  have key_len: "off + ?k \<le> ?n" by (rule occurs_length [OF key K])
  then have p: "p \<noteq> []" using K by auto
  have len: "s + ?n \<le> length (r @ w)" by (rule occurs_length [OF occ p])
  with w have s_less: "s < length r" by simp
  have nth: "\<And>j. j < ?n \<Longrightarrow> (r @ w) ! (s + j) = p ! j" by (rule occurs_nth(2) [OF occ])
  show False
  proof (cases "s + off + ?k \<le> length r")
    case True
    have "prefix K (drop (s + off) r)"
    proof (rule occursI [OF True])
      fix j assume j: "j < ?k"
      with True have "s + off + j < length r" by simp
      then have "r ! (s + off + j) = (r @ w) ! (s + (off + j))" by (simp add: nth_append add.assoc)
      also have "\<dots> = p ! (off + j)" using nth [of "off + j"] j key_len by simp
      also have "\<dots> = K ! j" by (rule occurs_nth(2) [OF key j])
      finally show "r ! (s + off + j) = K ! j" .
    qed
    moreover have "drop (s + off) r = drop (s - 1) (drop (Suc off) r)" using s by simp
    ultimately show False using unique by (auto simp: contains_iff_occurs)
  next
    case False
    define k where "k = length r - 1 - s"
    have k: "k < off + ?k - 1" "s + k = length r - 1" "k < ?n"
      unfolding k_def using False s_less key_len by arith+
    have "p ! k = (r @ w) ! (s + k)" using nth [OF k(3)] by simp
    also have "\<dots> = r ! (length r - 1)" unfolding k(2) using r by (simp add: nth_append)
    also have "\<dots> = last r" using r by (simp add: last_conv_nth)
    finally have "last r = take (off + ?k - 1) p ! k" using k(1) by simp
    moreover have "k < length (take (off + ?k - 1) p)" using k(1,3) by simp
    ultimately have "last r \<in> set (take (off + ?k - 1) p)" by (metis nth_mem)
    with last_r show False by simp
  qed
qed

lemma replacement_creates_no_occurrence:
  assumes p: "p = A @ B" and B: "B \<noteq> []" and r: "r = A @ c # Y" and c: "c \<notin> set B"
    and late: "\<And>s w. 0 < s \<Longrightarrow> length w < length p \<Longrightarrow> \<not> prefix p (drop s (r @ w))"
    and before: "\<not> contains p (acc @ butlast p)" and w: "length w < length p"
  shows "\<not> contains p (acc @ r @ w)"
proof
  assume "contains p (acc @ r @ w)"
  then obtain i where occ: "prefix p (drop i (acc @ r @ w))" by (auto simp: contains_iff_occurs)
  let ?n = "length p" and ?L = "length acc" and ?t = "acc @ r @ w"
  have np: "p \<noteq> []" using p B by simp
  have nth: "\<And>j. j < ?n \<Longrightarrow> ?t ! (i + j) = p ! j" by (rule occurs_nth(2) [OF occ])
  show False
  proof (cases "?L < i")
    case True
    then have "drop i ?t = drop (i - ?L) (r @ w)" by simp
    with occ late [of "i - ?L" w] True w show False by simp
  next
    case False
    show False
    proof (cases "i + ?n \<le> ?L + length A")
      case True
      have "prefix (acc @ A) ?t" by (simp add: r)
      from occurs_in_prefix [OF this occ] True
      have "prefix p (drop i (acc @ A))" by simp
      moreover have "prefix (acc @ A) (acc @ butlast p)"
        using B by (simp add: p butlast_append)
      ultimately have "prefix p (drop i (acc @ butlast p))"
        using np by (intro occurs_in_extension [of "acc @ A" "acc @ butlast p" p i])
      with before show False by (auto simp: contains_iff_occurs)
    next
      case over: False
      define k where "k = ?L + length A - i"
      have k: "length A \<le> k" "k < ?n" "i + k = ?L + length A"
        unfolding k_def using False over by arith+
      have "p ! k = ?t ! (i + k)" using nth [OF k(2)] by simp
      also have "\<dots> = c" unfolding k(3) by (simp add: r nth_append)
      finally have "B ! (k - length A) = c" using k(1) by (simp add: p nth_append)
      moreover have "k - length A < length B" using k(1,2) by (simp add: p)
      ultimately have "c \<in> set B" by (metis nth_mem)
      with c show False by simp
    qed
  qed
qed

lemma occurs_window:
  assumes p: "p \<noteq> []" and occ: "contains p (acc @ take (length p) d)"
  shows "contains p (acc @ take (length p - 1) d) \<or> prefix p d"
proof -
  let ?n = "length p"
  from occ obtain i where i: "prefix p (drop i (acc @ take ?n d))"
    by (auto simp: contains_iff_occurs)
  have len: "i + ?n \<le> length (acc @ take ?n d)" by (rule occurs_length [OF i p])
  have "take (?n - 1) d = take (?n - 1) (take ?n d)" by (simp add: min_def)
  then have "prefix (take (?n - 1) d) (take ?n d)" by (metis take_is_prefix)
  then have pre: "prefix (acc @ take (?n - 1) d) (acc @ take ?n d)" by simp
  show ?thesis
  proof (cases "i + ?n \<le> length (acc @ take (?n - 1) d)")
    case True
    from occurs_in_prefix [OF pre i True] show ?thesis by (auto simp: contains_iff_occurs)
  next
    case False
    have "length (acc @ take ?n d) = length acc + min (length d) ?n"
      and "length (acc @ take (?n - 1) d) = length acc + min (length d) (?n - 1)" by simp_all
    with len False have "i = length acc" "?n \<le> length d" by arith+
    with i have "prefix p (take ?n d)" by simp
    then have "prefix p d" using take_is_prefix prefix_order.order_trans by blast
    then show ?thesis ..
  qed
qed

lemma replace_removes:
  assumes p: "p \<noteq> []"
    and step: "\<And>acc w. \<not> contains p (acc @ butlast p) \<Longrightarrow> length w < length p
                 \<Longrightarrow> \<not> contains p (acc @ r @ w)"
  shows "\<not> contains p (acc @ take (length p - 1) d) \<Longrightarrow> \<not> contains p (acc @ replace p r d)"
proof (induction d arbitrary: acc rule: length_induct)
  case (1 d)
  let ?n = "length p"
  have np: "0 < ?n" using p by simp
  show ?case
  proof (cases d)
    case Nil
    with "1.prems" p show ?thesis by simp
  next
    case (Cons x xs)
    show ?thesis
    proof (cases "prefix p d")
      case True
      then obtain rest where d: "d = p @ rest" by (auto simp: prefix_def)
      have "take (?n - 1) d = butlast p" by (simp add: d butlast_conv_take)
      with "1.prems" have "\<not> contains p (acc @ butlast p)" by simp
      moreover have "length (take (?n - 1) rest) \<le> ?n - 1" by simp
      with np have "length (take (?n - 1) rest) < ?n" by arith
      ultimately have "\<not> contains p ((acc @ r) @ take (?n - 1) rest)"
        using step [of acc "take (?n - 1) rest"] by simp
      moreover have "length rest < length d" using p by (simp add: d)
      ultimately have "\<not> contains p ((acc @ r) @ replace p r rest)" using "1.IH" by blast
      moreover have "replace p r d = r @ replace p r rest"
        unfolding d by (rule replace_prefix [OF p])
      ultimately show ?thesis by simp
    next
      case False
      have "acc @ take ?n d = (acc @ [x]) @ take (?n - 1) xs"
        using np by (cases ?n) (simp_all add: Cons)
      with occurs_window [OF p, of acc d] "1.prems" False
      have "\<not> contains p ((acc @ [x]) @ take (?n - 1) xs)" by auto
      moreover have "length xs < length d" by (simp add: Cons)
      ultimately have "\<not> contains p ((acc @ [x]) @ replace p r xs)" using "1.IH" by blast
      moreover have "replace p r d = x # replace p r xs"
        using False p unfolding Cons by simp
      ultimately show ?thesis by simp
    qed
  qed
qed


section \<open>Script-Splice: \<^verbatim>\<open>rewrite_script.py\<close>\<close>

lemma open_tag_nonempty: "open_tag \<noteq> []" by (simp add: open_tag_def)
lemma close_tag_nonempty: "close_tag \<noteq> []" by (simp add: close_tag_def)

lemma index_first:
  assumes "sub \<noteq> []" "\<not> contains sub (pre @ butlast sub)"
  shows "index (u @ pre @ sub @ post) sub (length u) = Inr (length u + length pre)"
  using find_first_at [OF assms, of post] by (simp add: index_def)

lemma index_absent:
  assumes "\<not> contains sub (drop start t)"
  shows "index t sub start = Inl ValueError"
  using assms by (simp add: index_def find_first_None [symmetric])

lemma splice_script_found:
  assumes "\<not> contains open_tag (pre @ butlast open_tag)"
    and "open_tag @ rest = mid @ close_tag @ post"
    and "\<not> contains close_tag (mid @ butlast close_tag)"
  shows "splice_script (pre @ open_tag @ rest) s = Inr (pre @ s @ post)"
proof -
  have start: "index (pre @ open_tag @ rest) open_tag 0 = Inr (length pre)"
    using index_first [OF open_tag_nonempty assms(1), of "[]" rest] by simp
  have "index (pre @ mid @ close_tag @ post) close_tag (length pre) = Inr (length pre + length mid)"
    by (rule index_first [OF close_tag_nonempty assms(3)])
  then have stop: "index (pre @ open_tag @ rest) close_tag (length pre) = Inr (length pre + length mid)"
    by (simp add: assms(2))
  have "drop (length pre + length mid + length close_tag) (pre @ mid @ close_tag @ post) = post"
    by simp
  then have "drop (length pre + length mid + length close_tag) (pre @ open_tag @ rest) = post"
    by (simp add: assms(2))
  with start stop show ?thesis
    by (simp add: splice_script_def)
qed

lemma splice_script_no_open:
  assumes "\<not> contains open_tag doc"
  shows "splice_script doc s = Inl ValueError"
  using index_absent [of open_tag 0 doc] assms by (simp add: splice_script_def)

lemma splice_script_no_close:
  assumes "\<not> contains open_tag (pre @ butlast open_tag)"
    and "\<not> contains close_tag (open_tag @ rest)"
  shows "splice_script (pre @ open_tag @ rest) s = Inl ValueError"
proof -
  have start: "index (pre @ open_tag @ rest) open_tag 0 = Inr (length pre)"
    using index_first [OF open_tag_nonempty assms(1), of "[]" rest] by simp
  have "index (pre @ open_tag @ rest) close_tag (length pre) = Inl ValueError"
    using index_absent [of close_tag "length pre" "pre @ open_tag @ rest"] assms(2) by simp
  with start show ?thesis by (simp add: splice_script_def)
qed

lemma rewrite_script_run:
  assumes "fs html_path = Some doc" "fs script_path = Some s"
  shows "rewrite_script fs =
     (case splice_script doc s of
        Inl e \<Rightarrow> (Inl e, fs)
      | Inr t \<Rightarrow> (Inr (), fs(html_path \<mapsto> t)))"
  using assms
  by (simp add: rewrite_script_def bind_def read_text_def lift_def write_text_def split: sum.splits)

text \<open>
  C1. When the first opening tag \<^verbatim>\<open><script type="module">\<close> of the host document
  starts right after \<open>pre\<close>, and a closing tag \<^verbatim>\<open></script>\<close> occurs at or after the
  start of that opening tag, the run succeeds and stores the text before the opening tag,
  then the replacement text verbatim, then the text \<open>post\<close> behind the first such
  closing tag.
\<close>

theorem script_splice_correct:
  assumes "fs html_path = Some doc" and "fs script_path = Some s"
    and "doc = pre @ open_tag @ rest"
    and "\<not> contains open_tag (pre @ butlast open_tag)"
    and "contains close_tag (open_tag @ rest)"
  shows "\<exists>mid post. open_tag @ rest = mid @ close_tag @ post
           \<and> \<not> contains close_tag (mid @ butlast close_tag)
           \<and> rewrite_script fs = (Inr (), fs(html_path \<mapsto> pre @ s @ post))"
proof -
  from contains_first [OF close_tag_nonempty assms(5)] obtain mid post
    where eq: "open_tag @ rest = mid @ close_tag @ post"
      and first: "\<not> contains close_tag (mid @ butlast close_tag)" by blast
  have "splice_script doc s = Inr (pre @ s @ post)"
    unfolding assms(3) by (rule splice_script_found [OF assms(4) eq first])
  with rewrite_script_run [OF assms(1,2)]
  have "rewrite_script fs = (Inr (), fs(html_path \<mapsto> pre @ s @ post))" by simp
  with eq first show ?thesis by blast
qed

theorem script_splice_correct_witness:
  \<open>demo_fs html_path = Some ''<p><script type="module">a()</script>b</script>''
   \<and> demo_fs script_path = Some ''<script>c()</script>''
   \<and> ''<p><script type="module">a()</script>b</script>'' = ''<p>'' @ open_tag @ ''a()</script>b</script>''
   \<and> \<not> contains open_tag (''<p>'' @ butlast open_tag)
   \<and> contains close_tag (open_tag @ ''a()</script>b</script>'')
   \<and> (\<exists>mid post. open_tag @ ''a()</script>b</script>'' = mid @ close_tag @ post
           \<and> \<not> contains close_tag (mid @ butlast close_tag)
           \<and> rewrite_script demo_fs = (Inr (), demo_fs(html_path \<mapsto> ''<p>'' @ ''<script>c()</script>'' @ post)))
   \<and> rewrite_script demo_fs = (Inr (), demo_fs(html_path \<mapsto> ''<p><script>c()</script>b</script>''))\<close>
proof -
  have 0: \<open>rewrite_script demo_fs = (Inr (), demo_fs(html_path \<mapsto> ''<p><script>c()</script>b</script>''))\<close>
    by (simp add: rewrite_script_def bind_def read_text_def lift_def write_text_def
        splice_script_def index_def demo_fs_def html_path_def script_path_def
        open_tag_def close_tag_def)
  have 1: \<open>demo_fs html_path = Some ''<p><script type="module">a()</script>b</script>''\<close>
    by (simp add: demo_fs_def html_path_def script_path_def)
  have 2: \<open>demo_fs script_path = Some ''<script>c()</script>''\<close>
    by (simp add: demo_fs_def html_path_def script_path_def)
  have 3: \<open>''<p><script type="module">a()</script>b</script>'' = ''<p>'' @ open_tag @ ''a()</script>b</script>''\<close>
    by (simp add: open_tag_def)
  have 4: \<open>\<not> contains open_tag (''<p>'' @ butlast open_tag)\<close>
    by (simp add: open_tag_def)
  have 5: \<open>contains close_tag (open_tag @ ''a()</script>b</script>'')\<close>
    by (simp add: open_tag_def close_tag_def)
  from script_splice_correct [OF 1 2 3 4 5] 0 1 2 3 4 5 show ?thesis by blast
qed

text \<open>
  C6. When the host document does not contain \<^verbatim>\<open><script type="module">\<close>, the run
  ends with the \<^verbatim>\<open>ValueError\<close> of \<^verbatim>\<open>str.index\<close> and the store is left as it was.
\<close>

theorem script_splice_missing_open:
  assumes "fs html_path = Some doc" and "fs script_path = Some s"
    and "\<not> contains open_tag doc"
  shows "rewrite_script fs = (Inl ValueError, fs)"
  using rewrite_script_run [OF assms(1,2)] splice_script_no_open [OF assms(3), of s]
  by simp

theorem script_splice_missing_open_witness:
  \<open>plain_fs html_path = Some ''<p><script>a()</script></p>''
   \<and> plain_fs script_path = Some ''<script>c()</script>''
   \<and> \<not> contains open_tag ''<p><script>a()</script></p>''
   \<and> rewrite_script plain_fs = (Inl ValueError, plain_fs)\<close>
proof -
  have 1: \<open>plain_fs html_path = Some ''<p><script>a()</script></p>''\<close>
    by (simp add: plain_fs_def html_path_def script_path_def)
  have 2: \<open>plain_fs script_path = Some ''<script>c()</script>''\<close>
    by (simp add: plain_fs_def html_path_def script_path_def)
  have 3: \<open>\<not> contains open_tag ''<p><script>a()</script></p>''\<close>
    by (simp add: open_tag_def)
  from script_splice_missing_open [OF 1 2 3] 1 2 3 show ?thesis by blast
qed

text \<open>
  C8. When the first opening tag of the host document starts right after \<open>pre\<close> but no
  \<^verbatim>\<open></script>\<close> occurs at or after the start of that tag, the second \<^verbatim>\<open>str.index\<close>
  raises \<^verbatim>\<open>ValueError\<close> before the write, and the store is left as it was.
\<close>

theorem script_splice_missing_close:
  assumes "fs html_path = Some doc" and "fs script_path = Some s"
    and "doc = pre @ open_tag @ rest"
    and "\<not> contains open_tag (pre @ butlast open_tag)"
    and "\<not> contains close_tag (open_tag @ rest)"
  shows "rewrite_script fs = (Inl ValueError, fs)"
  using rewrite_script_run [OF assms(1,2)] splice_script_no_close [OF assms(4,5), of s]
  by (simp add: assms(3))

theorem script_splice_missing_close_witness:
  \<open>unclosed_fs html_path = Some ''</script><script type="module">a()''
   \<and> unclosed_fs script_path = Some ''<script>c()</script>''
   \<and> ''</script><script type="module">a()'' = ''</script>'' @ open_tag @ ''a()''
   \<and> \<not> contains open_tag (''</script>'' @ butlast open_tag)
   \<and> \<not> contains close_tag (open_tag @ ''a()'')
   \<and> rewrite_script unclosed_fs = (Inl ValueError, unclosed_fs)\<close>
proof -
  have 1: \<open>unclosed_fs html_path = Some ''</script><script type="module">a()''\<close>
    by (simp add: unclosed_fs_def html_path_def script_path_def)
  have 2: \<open>unclosed_fs script_path = Some ''<script>c()</script>''\<close>
    by (simp add: unclosed_fs_def html_path_def script_path_def)
  have 3: \<open>''</script><script type="module">a()'' = ''</script>'' @ open_tag @ ''a()''\<close>
    by (simp add: open_tag_def)
  have 4: \<open>\<not> contains open_tag (''</script>'' @ butlast open_tag)\<close>
    by (simp add: open_tag_def)
  have 5: \<open>\<not> contains close_tag (open_tag @ ''a()'')\<close>
    by (simp add: open_tag_def close_tag_def)
  from script_splice_missing_close [OF 1 2 3 4 5] 1 2 3 4 5 show ?thesis by blast
qed


section \<open>Markup-Patch: \<^verbatim>\<open>tmp_modify.py\<close>\<close>

subsection \<open>Facts about the literals of \<^verbatim>\<open>tmp_modify.py\<close>\<close>

lemma marker_nonempty: "marker \<noteq> []" by (simp add: marker_def)
lemma style_anchor_nonempty: "style_anchor \<noteq> []" by (simp add: style_anchor_def)
lemma old_block_nonempty: "old_block \<noteq> []" by (simp add: old_block_def)

lemma marker_in_css: "contains marker css_insert"
  unfolding css_insert_def
  apply (rule contains_append_right)
  apply (rule contains_append_left)
  apply (simp add: marker_def)
  done

lemma brace_in_css: "contains ''{'' css_insert"
  unfolding css_insert_def
  apply (rule contains_append_right)
  apply (rule contains_append_left)
  apply simp
  done

lemma css_insert_nonempty: "css_insert \<noteq> []"
  using marker_in_css contains_length [of marker css_insert] marker_nonempty by auto

lemma css_no_gt: "CHR ''>'' \<notin> set css_insert"
proof -
  have "list_all (\<lambda>c. c \<noteq> CHR ''>'') css_insert"
    unfolding css_insert_def by (simp del: append.simps)
  then show ?thesis by (auto simp: list_all_iff)
qed

lemma old_block_ends: "last old_block = CHR ''>''"
  by (simp add: old_block_def)

lemma old_block_starts: "hd old_block = CHR '' ''"
  by (simp add: old_block_def)

lemma old_block_no_blank_line: "\<not> contains ''\<newline>\<newline>'' old_block"
  by (simp add: old_block_def)

lemma old_block_split: "old_block = take 297 old_block @ ''</section>''"
proof -
  have "drop 297 old_block = ''</section>''" by (simp add: old_block_def)
  then show ?thesis by (metis append_take_drop_id)
qed

lemma old_block_key: \<open>prefix ''o"'' (drop 26 old_block)\<close>
  by (simp add: old_block_def)

lemma old_block_head_no_gt: "CHR ''>'' \<notin> set (take 27 old_block)"
  by (simp add: old_block_def)

lemma new_markup_ends: "last new_markup = CHR ''>''"
  unfolding new_markup_def by (simp only: last_chain1 last_chain2) simp

lemma new_markup_key_unique: \<open>\<not> contains ''o"'' (drop 27 new_markup)\<close>
  unfolding new_markup_def by (simp del: append.simps add: contains_chain1 contains_chain2)

lemma new_markup_head: "take 298 new_markup = take 297 old_block @ '' ''"
proof -
  have "take 293 new_markup = take 293 old_block"
    unfolding new_markup_def old_block_def by (simp del: append.simps)
  moreover have "take 5 (drop 293 new_markup) = ''     ''"
    unfolding new_markup_def by (simp del: append.simps)
  moreover have "take 298 new_markup = take 293 new_markup @ take 5 (drop 293 new_markup)"
    using take_add [of 293 5 new_markup] by simp
  moreover have "take 297 old_block @ '' '' = take 293 old_block @ ''     ''"
    by (simp add: old_block_def)
  ultimately show ?thesis by simp
qed

lemma new_markup_split:
  "new_markup = take 297 old_block @ CHR '' '' # drop 298 new_markup"
  using append_take_drop_id [of 298 new_markup] by (simp add: new_markup_head)

lemma new_markup_nonempty: "new_markup \<noteq> []"
  using new_markup_split by (metis append_is_Nil_conv list.distinct(1))


subsection \<open>The style-injection step\<close>

lemma style_inject_marker: "contains marker d \<Longrightarrow> style_inject d = d"
  by (simp add: style_inject_def)

lemma style_inject_no_anchor: "\<not> contains style_anchor d \<Longrightarrow> style_inject d = d"
  by (simp add: style_inject_def replace_absent [OF style_anchor_nonempty])

lemma style_inject_first:
  assumes "\<not> contains marker (pre @ style_anchor @ post)"
    and "\<not> contains style_anchor (pre @ butlast style_anchor)"
  shows "style_inject (pre @ style_anchor @ post)
       = pre @ css_insert @ ''\<newline>\<newline>'' @ style_anchor @ style_inject post"
proof -
  from assms(1) have "\<not> contains marker post"
    using contains_appendI [of marker post "pre @ style_anchor" "[]"] by auto
  then have "style_inject post = replace style_anchor (css_insert @ ''\<newline>\<newline>  </style>'') post"
    by (simp add: style_inject_def)
  moreover have "style_inject (pre @ style_anchor @ post)
     = pre @ (css_insert @ ''\<newline>\<newline>  </style>'') @ replace style_anchor (css_insert @ ''\<newline>\<newline>  </style>'') post"
    using assms(1) replace_first [OF style_anchor_nonempty assms(2)]
    by (simp add: style_inject_def)
  ultimately show ?thesis by (simp add: style_anchor_def)
qed

lemma style_inject_inserts:
  assumes "\<not> contains marker d" "contains style_anchor d"
  shows "contains css_insert (style_inject d)"
proof -
  from contains_first [OF style_anchor_nonempty assms(2)] obtain pre post
    where eq: "d = pre @ style_anchor @ post"
      and first: "\<not> contains style_anchor (pre @ butlast style_anchor)" by blast
  have "style_inject d = pre @ css_insert @ ''\<newline>\<newline>'' @ style_anchor @ style_inject post"
    using style_inject_first [OF _ first, of post] assms(1) eq by simp
  moreover have "contains css_insert (pre @ css_insert @ ''\<newline>\<newline>'' @ style_anchor @ style_inject post)"
    by (rule contains_appendI [OF contains_self])
  ultimately show ?thesis by simp
qed

lemma style_inject_keeps_absent:
  assumes "\<not> contains old_block d"
  shows "\<not> contains old_block (style_inject d)"
proof (cases "contains marker d")
  case True
  with assms show ?thesis by (simp add: style_inject_def)
next
  case False
  have ins: "contains old_block (u @ style_anchor @ v)"
    if "contains old_block (u @ (css_insert @ ''\<newline>\<newline>  </style>'') @ v)" for u v
  proof -
    have "last old_block \<notin> set (css_insert @ ''\<newline>\<newline>'')"
      using css_no_gt by (simp add: old_block_ends)
    moreover have "css_insert @ ''\<newline>\<newline>'' = css_insert @ [CHR ''\<newline>'', CHR ''\<newline>'']"
      by simp
    moreover have "\<not> contains [CHR ''\<newline>'', CHR ''\<newline>''] old_block"
      using old_block_no_blank_line by simp
    moreover have "hd old_block \<noteq> CHR ''\<newline>''"
      by (simp add: old_block_starts)
    moreover have "contains old_block (u @ (css_insert @ ''\<newline>\<newline>'') @ style_anchor @ v)"
      using that by (simp add: style_anchor_def)
    ultimately show ?thesis
      by (rule insertion_creates_no_occurrence [OF old_block_nonempty])
  qed
  have "contains old_block ([] @ d)"
    if c: "contains old_block ([] @ replace style_anchor (css_insert @ ''\<newline>\<newline>  </style>'') d)"
  proof (rule replace_creates_no_occurrence [OF style_anchor_nonempty _ c])
    fix u v
    assume "contains old_block (u @ (css_insert @ ''\<newline>\<newline>  </style>'') @ v)"
    then show "contains old_block (u @ style_anchor @ v)" by (rule ins)
  qed
  with assms False show ?thesis by (auto simp: style_inject_def)
qed

subsection \<open>The fragment-replacement step\<close>

lemma replace_old_block_gone: "\<not> contains old_block (replace old_block new_markup d)"
proof -
  have late: "\<not> prefix old_block (drop s (new_markup @ w))"
    if "0 < s" "length w < length old_block" for s w
  proof (rule no_late_occurrence [OF old_block_key _ _ new_markup_nonempty _ that])
    show \<open>\<not> contains ''o"'' (drop (Suc 26) new_markup)\<close>
      using new_markup_key_unique by simp
    show \<open>''o"'' \<noteq> []\<close> by simp
    show \<open>last new_markup \<notin> set (take (26 + length ''o"'' - 1) old_block)\<close>
      using old_block_head_no_gt by (simp add: new_markup_ends)
  qed
  have step: "\<not> contains old_block (acc @ new_markup @ w)"
    if "\<not> contains old_block (acc @ butlast old_block)" "length w < length old_block" for acc w
  proof (rule replacement_creates_no_occurrence [OF old_block_split _ new_markup_split _ _ that])
    show "''</section>'' \<noteq> []" by simp
    show "CHR '' '' \<notin> set ''</section>''" by simp
    show "\<not> prefix old_block (drop s (new_markup @ w'))"
      if "0 < s" "length w' < length old_block" for s w'
      using that by (rule late)
  qed
  have start: "\<not> contains old_block ([] @ take (length old_block - 1) d)"
    using contains_length [of old_block "take (length old_block - 1) d"] old_block_nonempty
    by (cases old_block) auto
  have "\<not> contains old_block ([] @ replace old_block new_markup d)"
  proof (rule replace_removes [OF old_block_nonempty _ start])
    show "\<not> contains old_block (acc @ new_markup @ w)"
      if "\<not> contains old_block (acc @ butlast old_block)" "length w < length old_block" for acc w
      using that by (rule step)
  qed
  then show ?thesis by simp
qed

lemma new_markup_differs: "new_markup \<noteq> old_block"
  using replace_old_block_gone [of old_block] replace_prefix [OF old_block_nonempty, of new_markup "[]"]
    contains_self [of old_block] old_block_nonempty
  by auto

subsection \<open>The two steps in sequence, and the whole run\<close>

lemma steps_abort:
  assumes "\<not> contains old_block d"
  shows "markup_replace (style_inject d) = Inl (SystemExit diagnostic)"
  using style_inject_keeps_absent [OF assms] by (simp add: markup_replace_def)

lemma replace_subseq:
  assumes "old \<noteq> []"
  shows "subseq d (replace old (I @ old) d)"
proof (induction d rule: length_induct)
  case (1 d)
  show ?case
  proof (cases d)
    case Nil
    with assms show ?thesis by simp
  next
    case (Cons x xs)
    show ?thesis
    proof (cases "prefix old d")
      case True
      then obtain rest where d: "d = old @ rest" by (auto simp: prefix_def)
      have "length rest < length d" using assms by (simp add: d)
      with "1.IH" have "subseq rest (replace old (I @ old) rest)" by blast
      moreover have "subseq old (I @ old)" by (rule list_emb_append2) simp
      ultimately have "subseq (old @ rest) ((I @ old) @ replace old (I @ old) rest)"
        by (rule list_emb_append_mono [rotated])
      then show ?thesis by (simp add: d replace_prefix [OF assms])
    next
      case False
      have "length xs < length d" by (simp add: Cons)
      with "1.IH" have "subseq xs (replace old (I @ old) xs)" by blast
      with False assms show ?thesis unfolding Cons by simp
    qed
  qed
qed

lemma style_inject_subseq: "subseq d (style_inject d)"
proof -
  have "css_insert @ ''\<newline>\<newline>  </style>'' = (css_insert @ ''\<newline>\<newline>'') @ style_anchor"
    by (simp add: style_anchor_def)
  then show ?thesis
    using replace_subseq [OF style_anchor_nonempty, of d "css_insert @ ''\<newline>\<newline>''"]
    by (simp add: style_inject_def)
qed

lemma tmp_modify_raises: "tmp_modify fs = (Inl NameError, fs)"
  by (simp add: tmp_modify_def bind_def load_name_def module_names_def)


section \<open>Markup-Patch: properties of the two steps and of the run\<close>

text \<open>
  C2, as the code has it. The anchor of the insertion is the literal \<^verbatim>\<open>  </style>\<close>,
  indented by two spaces, and \<^verbatim>\<open>str.replace\<close> treats every occurrence of it: when the
  marker \<^verbatim>\<open>combat-controls\<close> is present the step changes nothing; when the anchor is
  absent the step changes nothing; and when the marker is absent and the first anchor
  starts right after \<open>pre\<close>, the result is \<open>pre\<close>, the CSS block, a blank line, the
  anchor, and the rest of the document treated in the same way.
\<close>

theorem style_injection_location:
  "(contains marker d \<longrightarrow> style_inject d = d)
   \<and> (\<not> contains style_anchor d \<longrightarrow> style_inject d = d)
   \<and> (\<not> contains marker d \<and> d = pre @ style_anchor @ post
        \<and> \<not> contains style_anchor (pre @ butlast style_anchor)
      \<longrightarrow> style_inject d = pre @ css_insert @ ''\<newline>\<newline>'' @ style_anchor @ style_inject post)"
  using style_inject_marker style_inject_no_anchor style_inject_first by blast

theorem style_injection_location_witness:
  \<open>contains marker ''<b class="combat-controls">  </style>''
   \<and> style_inject ''<b class="combat-controls">  </style>'' = ''<b class="combat-controls">  </style>''
   \<and> \<not> contains style_anchor ''<style>\<newline>body{}\<newline></style>''
   \<and> style_inject ''<style>\<newline>body{}\<newline></style>'' = ''<style>\<newline>body{}\<newline></style>''
   \<and> \<not> contains marker ''<style>\<newline>  </style>\<newline>  </style>''
   \<and> ''<style>\<newline>  </style>\<newline>  </style>'' = ''<style>\<newline>'' @ style_anchor @ ''\<newline>  </style>''
   \<and> \<not> contains style_anchor (''<style>\<newline>'' @ butlast style_anchor)
   \<and> style_inject ''<style>\<newline>  </style>\<newline>  </style>''
       = ''<style>\<newline>'' @ css_insert @ ''\<newline>\<newline>'' @ style_anchor @ style_inject ''\<newline>  </style>''\<close>
proof -
  have 1: \<open>contains marker ''<b class="combat-controls">  </style>''\<close>
    by (simp add: marker_def)
  have 2: \<open>\<not> contains style_anchor ''<style>\<newline>body{}\<newline></style>''\<close>
    by (simp add: style_anchor_def)
  have 3: \<open>\<not> contains marker ''<style>\<newline>  </style>\<newline>  </style>''\<close>
    by (simp add: marker_def)
  have 4: \<open>''<style>\<newline>  </style>\<newline>  </style>'' = ''<style>\<newline>'' @ style_anchor @ ''\<newline>  </style>''\<close>
    by (simp add: style_anchor_def)
  have 5: \<open>\<not> contains style_anchor (''<style>\<newline>'' @ butlast style_anchor)\<close>
    by (simp add: style_anchor_def)
  from style_injection_location [of \<open>''<b class="combat-controls">  </style>''\<close>] 1
  have a: \<open>style_inject ''<b class="combat-controls">  </style>'' = ''<b class="combat-controls">  </style>''\<close>
    by blast
  from style_injection_location [of \<open>''<style>\<newline>body{}\<newline></style>''\<close>] 2
  have b: \<open>style_inject ''<style>\<newline>body{}\<newline></style>'' = ''<style>\<newline>body{}\<newline></style>''\<close>
    by blast
  from style_injection_location [of \<open>''<style>\<newline>  </style>\<newline>  </style>''\<close>
      \<open>''<style>\<newline>''\<close> \<open>''\<newline>  </style>''\<close>] 3 4 5
  have c: \<open>style_inject ''<style>\<newline>  </style>\<newline>  </style>''
       = ''<style>\<newline>'' @ css_insert @ ''\<newline>\<newline>'' @ style_anchor @ style_inject ''\<newline>  </style>''\<close>
    by blast
  from 1 2 3 4 5 a b c show ?thesis by blast
qed

text \<open>
  C2 as stated fails on its own scenario: in \<^verbatim>\<open><style>\nbody{}\n</style>\<close> the marker is
  absent and a \<^verbatim>\<open></style>\<close> tag is present, yet the step returns the document unchanged
  and not the document with the CSS block in front of \<^verbatim>\<open></style>\<close>.
\<close>

theorem style_injection_location_counterexample:
  \<open>\<not> contains marker ''<style>\<newline>body{}\<newline></style>''
   \<and> contains ''</style>'' ''<style>\<newline>body{}\<newline></style>''
   \<and> style_inject ''<style>\<newline>body{}\<newline></style>'' = ''<style>\<newline>body{}\<newline></style>''
   \<and> style_inject ''<style>\<newline>body{}\<newline></style>'' \<noteq> ''<style>\<newline>body{}\<newline>'' @ css_insert @ ''</style>''\<close>
proof -
  have 1: \<open>\<not> contains marker ''<style>\<newline>body{}\<newline></style>''\<close>
    by (simp add: marker_def)
  have 0: \<open>contains ''</style>'' ''<style>\<newline>body{}\<newline></style>''\<close>
    by simp
  have \<open>\<not> contains style_anchor ''<style>\<newline>body{}\<newline></style>''\<close>
    by (simp add: style_anchor_def)
  then have 2: \<open>style_inject ''<style>\<newline>body{}\<newline></style>'' = ''<style>\<newline>body{}\<newline></style>''\<close>
    by (rule style_inject_no_anchor)
  have \<open>''<style>\<newline>body{}\<newline>'' @ [] @ ''</style>'' \<noteq> ''<style>\<newline>body{}\<newline>'' @ css_insert @ ''</style>''\<close>
    using css_insert_nonempty by simp
  then have 3: \<open>style_inject ''<style>\<newline>body{}\<newline></style>'' \<noteq> ''<style>\<newline>body{}\<newline>'' @ css_insert @ ''</style>''\<close>
    unfolding 2 by simp
  from 0 1 2 3 show ?thesis by blast
qed

text \<open>
  C3, as the code has it: applying the style-injection step twice gives the same
  document as applying it once. (How often the marker occurs in the result is not fixed;
  see the counterexample.)
\<close>

theorem style_injection_idempotent: "style_inject (style_inject d) = style_inject d"
proof (cases "contains marker d")
  case True
  then show ?thesis by (simp add: style_inject_marker)
next
  case False
  show ?thesis
  proof (cases "contains style_anchor d")
    case True
    with False have "contains css_insert (style_inject d)" by (rule style_inject_inserts)
    with marker_in_css have "contains marker (style_inject d)" by (rule contains_trans)
    then show ?thesis by (rule style_inject_marker)
  next
    case False
    then show ?thesis by (simp add: style_inject_no_anchor)
  qed
qed

text \<open>
  C3 as stated fails in its second half: the result of the step on \<^verbatim>\<open><p></p>\<close> does not
  contain the marker at all, and the result on \<^verbatim>\<open>  </style>\<close> contains it at position 6
  and again at position 128 (the CSS block names the class in several rules).
\<close>

theorem style_injection_idempotent_counterexample:
  \<open>\<not> contains marker (style_inject ''<p></p>'')
   \<and> prefix marker (drop 6 (style_inject ''  </style>''))
   \<and> prefix marker (drop 128 (style_inject ''  </style>''))\<close>
proof -
  have \<open>\<not> contains style_anchor ''<p></p>''\<close> by (simp add: style_anchor_def)
  then have \<open>style_inject ''<p></p>'' = ''<p></p>''\<close> by (rule style_inject_no_anchor)
  then have 1: \<open>\<not> contains marker (style_inject ''<p></p>'')\<close> by (simp add: marker_def)
  have \<open>\<not> contains marker ''  </style>''\<close> by (simp add: marker_def)
  then have out: \<open>style_inject ''  </style>'' = css_insert @ ''\<newline>\<newline>  </style>''\<close>
    by (simp add: style_inject_def style_anchor_def)
  have 2: \<open>prefix marker (drop 6 (css_insert @ ''\<newline>\<newline>  </style>''))\<close>
    unfolding css_insert_def by (simp del: append_Cons add: marker_def)
  have 3: \<open>prefix marker (drop 128 (css_insert @ ''\<newline>\<newline>  </style>''))\<close>
    unfolding css_insert_def by (simp del: append_Cons add: marker_def)
  from 1 2 3 show ?thesis unfolding out by blast
qed

text \<open>
  C10. The guard looks for \<^verbatim>\<open>combat-controls\<close> in the whole document: a document that
  contains it anywhere is returned unchanged by the step.
\<close>

theorem style_guard_whole_document: "contains marker d \<Longrightarrow> style_inject d = d"
  by (simp add: style_inject_def)

text \<open>
  The witness has the marker in markup only: the CSS block is absent, the anchor is
  present, and still nothing is inserted.
\<close>

theorem style_guard_whole_document_witness:
  \<open>contains marker ''<b class="combat-controls"></b>\<newline>  </style>''
   \<and> contains style_anchor ''<b class="combat-controls"></b>\<newline>  </style>''
   \<and> \<not> contains css_insert ''<b class="combat-controls"></b>\<newline>  </style>''
   \<and> style_inject ''<b class="combat-controls"></b>\<newline>  </style>''
       = ''<b class="combat-controls"></b>\<newline>  </style>''\<close>
proof -
  have 1: \<open>contains marker ''<b class="combat-controls"></b>\<newline>  </style>''\<close>
    by (simp add: marker_def)
  have 2: \<open>contains style_anchor ''<b class="combat-controls"></b>\<newline>  </style>''\<close>
    by (simp add: style_anchor_def)
  have \<open>\<not> contains ''{'' ''<b class="combat-controls"></b>\<newline>  </style>''\<close>
    by simp
  then have 3: \<open>\<not> contains css_insert ''<b class="combat-controls"></b>\<newline>  </style>''\<close>
    using contains_trans [OF brace_in_css] by blast
  from style_guard_whole_document [OF 1] 1 2 3 show ?thesis by blast
qed

text \<open>
  C7, as the code has it. \<^verbatim>\<open>str.replace\<close> replaces every occurrence of the fragment,
  not only the first: with the first occurrence right after \<open>pre\<close>, the result is
  \<open>pre\<close> unchanged, the new markup, and the rest of the document with its occurrences
  replaced in the same way. When the fragment occurs once only, all the text around it
  is unchanged.
\<close>

theorem markup_replace_correct:
  assumes "\<not> contains old_block (pre @ butlast old_block)"
  shows "markup_replace (pre @ old_block @ post)
           = Inr (pre @ new_markup @ replace old_block new_markup post)
         \<and> (\<not> contains old_block post
              \<longrightarrow> markup_replace (pre @ old_block @ post) = Inr (pre @ new_markup @ post))"
proof -
  have "contains old_block (pre @ old_block @ post)"
    by (rule contains_appendI [OF contains_self])
  then have "markup_replace (pre @ old_block @ post)
           = Inr (pre @ new_markup @ replace old_block new_markup post)"
    by (simp add: markup_replace_def replace_first [OF old_block_nonempty assms])
  then show ?thesis
    by (simp add: replace_absent [OF old_block_nonempty])
qed

theorem markup_replace_correct_witness:
  "\<not> contains old_block (''<body>\<newline>'' @ butlast old_block)
   \<and> \<not> contains old_block ''\<newline></body>''
   \<and> markup_replace (''<body>\<newline>'' @ old_block @ ''\<newline></body>'')
       = Inr (''<body>\<newline>'' @ new_markup @ ''\<newline></body>'')"
proof -
  have "hd old_block \<notin> set ''<body>\<newline>''" by (simp add: old_block_starts)
  then have 1: "\<not> contains old_block (''<body>\<newline>'' @ butlast old_block)"
    using contains_skip [OF old_block_nonempty] not_contains_butlast [OF old_block_nonempty]
    by blast
  have 2: "\<not> contains old_block ''\<newline></body>''"
    by (simp add: old_block_def)
  from markup_replace_correct [OF 1, of "''\<newline></body>''"] 1 2 show ?thesis by blast
qed

text \<open>
  C7 as stated fails on a document that holds the fragment twice: the second occurrence
  is replaced as well, so the text behind the first occurrence is not kept.
\<close>

theorem markup_replace_correct_counterexample:
  "markup_replace (old_block @ old_block) = Inr (new_markup @ new_markup)
   \<and> markup_replace (old_block @ old_block) \<noteq> Inr (new_markup @ old_block)"
proof -
  have "replace old_block new_markup (old_block @ old_block @ []) = new_markup @ new_markup @ []"
    by (simp only: replace_prefix [OF old_block_nonempty] replace.simps old_block_nonempty if_False)
  moreover have "contains old_block (old_block @ old_block)"
    by (rule contains_append_left [OF contains_self])
  ultimately have "markup_replace (old_block @ old_block) = Inr (new_markup @ new_markup)"
    by (simp add: markup_replace_def)
  then show ?thesis using new_markup_differs by simp
qed

text \<open>
  C5. When the document contains the fragment, the step succeeds, its output no longer
  contains the fragment, and the step applied to that output ends with the fixed
  diagnostic.
\<close>

theorem markup_replace_not_idempotent:
  assumes "contains old_block d"
  shows "\<exists>out. markup_replace d = Inr out \<and> \<not> contains old_block out
           \<and> markup_replace out = Inl (SystemExit diagnostic)"
  using assms replace_old_block_gone [of d]
  by (simp add: markup_replace_def)

theorem markup_replace_not_idempotent_witness:
  "contains old_block old_block
   \<and> markup_replace old_block = Inr new_markup
   \<and> \<not> contains old_block new_markup
   \<and> markup_replace new_markup = Inl (SystemExit diagnostic)"
proof -
  have 1: "contains old_block old_block" by (rule contains_self)
  have "replace old_block new_markup (old_block @ []) = new_markup @ []"
    by (simp only: replace_prefix [OF old_block_nonempty] replace.simps old_block_nonempty if_False)
  with 1 have 2: "markup_replace old_block = Inr new_markup"
    by (simp add: markup_replace_def)
  from markup_replace_not_idempotent [OF 1] 1 2 show ?thesis by auto
qed

text \<open>
  C4 does not hold of the script as it is. Lines 220 to 230 do what C4 says: on a
  document without the fragment they end with
  \<^verbatim>\<open>SystemExit('Could not locate combat insertion point')\<close> before the write
  (\<open>steps_abort\<close>). But the run never reaches them: for the store below, whose
  \<^verbatim>\<open>public/index.html\<close> has no fragment, the run ends with the \<^verbatim>\<open>NameError\<close> of line 2
  and not with the diagnostic. The store is left as it was.
\<close>

theorem markup_patch_abort_name_error:
  "unstyled_fs index_path = Some ''<style>\<newline>  </style>\<newline><p></p>''
   \<and> \<not> contains old_block ''<style>\<newline>  </style>\<newline><p></p>''
   \<and> markup_replace (style_inject ''<style>\<newline>  </style>\<newline><p></p>'')
       = Inl (SystemExit diagnostic)
   \<and> tmp_modify unstyled_fs = (Inl NameError, unstyled_fs)
   \<and> tmp_modify unstyled_fs \<noteq> (Inl (SystemExit diagnostic), unstyled_fs)"
proof -
  have 1: "unstyled_fs index_path = Some ''<style>\<newline>  </style>\<newline><p></p>''"
    by (simp add: unstyled_fs_def)
  have 2: "\<not> contains old_block ''<style>\<newline>  </style>\<newline><p></p>''"
    by (simp add: old_block_def)
  have 3: "tmp_modify unstyled_fs = (Inl NameError, unstyled_fs)"
    by (rule tmp_modify_raises)
  from 1 2 3 steps_abort [OF 2] show ?thesis by simp
qed

text \<open>
  C9. The style-injection step (lines 220 and 221) is a total function of the document
  and raises nothing. It returns the document unchanged when the marker is present or
  the anchor \<^verbatim>\<open>  </style>\<close> is absent. Otherwise it inserts: with the first anchor starting
  right after \<open>pre\<close>, the result is \<open>pre\<close>, the CSS block, a blank line, the anchor
  and the rest treated in the same way. In every case the document is kept, in order,
  inside the result. A document with neither the anchor nor the fragment passes the
  step unchanged, whereas the fragment-replacement step raises on it.
\<close>

theorem style_injection_never_fails:
  "(contains marker d \<or> \<not> contains style_anchor d \<longrightarrow> style_inject d = d)
   \<and> (\<not> contains marker d \<and> contains style_anchor d \<longrightarrow>
        (\<exists>pre post. d = pre @ style_anchor @ post
           \<and> \<not> contains style_anchor (pre @ butlast style_anchor)
           \<and> style_inject d
               = pre @ css_insert @ ''\<newline>\<newline>'' @ style_anchor @ style_inject post))
   \<and> subseq d (style_inject d)
   \<and> (\<not> contains style_anchor d \<and> \<not> contains old_block d \<longrightarrow>
        style_inject d = d \<and> markup_replace d = Inl (SystemExit diagnostic))"
proof -
  have unchanged: "style_inject d = d" if "contains marker d \<or> \<not> contains style_anchor d"
    using that style_inject_marker [of d] style_inject_no_anchor [of d] by blast
  have inserted: "\<exists>pre post. d = pre @ style_anchor @ post
           \<and> \<not> contains style_anchor (pre @ butlast style_anchor)
           \<and> style_inject d
               = pre @ css_insert @ ''\<newline>\<newline>'' @ style_anchor @ style_inject post"
    if "\<not> contains marker d" "contains style_anchor d"
  proof -
    from contains_first [OF style_anchor_nonempty that(2)] obtain pre post
      where eq: "d = pre @ style_anchor @ post"
        and first: "\<not> contains style_anchor (pre @ butlast style_anchor)" by blast
    have "style_inject d = pre @ css_insert @ ''\<newline>\<newline>'' @ style_anchor @ style_inject post"
      using style_inject_first [OF _ first, of post] that(1) eq by simp
    with eq first show ?thesis by blast
  qed
  have contrast: "markup_replace d = Inl (SystemExit diagnostic)" if "\<not> contains old_block d"
    using that by (simp add: markup_replace_def)
  from unchanged inserted contrast style_inject_subseq [of d] show ?thesis by blast
qed

theorem style_injection_never_fails_witness:
  \<open>contains marker ''<b class="combat-controls">  </style>''
   \<and> style_inject ''<b class="combat-controls">  </style>'' = ''<b class="combat-controls">  </style>''
   \<and> \<not> contains style_anchor ''<style>\<newline>body{}\<newline></style>''
   \<and> \<not> contains old_block ''<style>\<newline>body{}\<newline></style>''
   \<and> style_inject ''<style>\<newline>body{}\<newline></style>'' = ''<style>\<newline>body{}\<newline></style>''
   \<and> markup_replace ''<style>\<newline>body{}\<newline></style>'' = Inl (SystemExit diagnostic)
   \<and> \<not> contains marker ''<style>\<newline>  </style>\<newline><p></p>''
   \<and> contains style_anchor ''<style>\<newline>  </style>\<newline><p></p>''
   \<and> (\<exists>pre post. ''<style>\<newline>  </style>\<newline><p></p>'' = pre @ style_anchor @ post
          \<and> \<not> contains style_anchor (pre @ butlast style_anchor)
          \<and> style_inject ''<style>\<newline>  </style>\<newline><p></p>''
              = pre @ css_insert @ ''\<newline>\<newline>'' @ style_anchor @ style_inject post)
   \<and> style_inject ''<style>\<newline>  </style>\<newline><p></p>''
       = ''<style>\<newline>'' @ css_insert @ ''\<newline>\<newline>  </style>\<newline><p></p>''
   \<and> subseq ''<style>\<newline>  </style>\<newline><p></p>''
        (style_inject ''<style>\<newline>  </style>\<newline><p></p>'')\<close>
proof -
  have 1: \<open>contains marker ''<b class="combat-controls">  </style>''\<close>
    by (simp add: marker_def)
  have 2: \<open>\<not> contains style_anchor ''<style>\<newline>body{}\<newline></style>''\<close>
    by (simp add: style_anchor_def)
  have 3: \<open>\<not> contains old_block ''<style>\<newline>body{}\<newline></style>''\<close>
    by (simp add: old_block_def)
  have 4: \<open>\<not> contains marker ''<style>\<newline>  </style>\<newline><p></p>''\<close>
    by (simp add: marker_def)
  have 5: \<open>contains style_anchor ''<style>\<newline>  </style>\<newline><p></p>''\<close>
    by (simp add: style_anchor_def)
  from style_injection_never_fails [of \<open>''<b class="combat-controls">  </style>''\<close>] 1
  have a: \<open>style_inject ''<b class="combat-controls">  </style>'' = ''<b class="combat-controls">  </style>''\<close>
    by blast
  from style_injection_never_fails [of \<open>''<style>\<newline>body{}\<newline></style>''\<close>] 2 3
  have b: \<open>style_inject ''<style>\<newline>body{}\<newline></style>'' = ''<style>\<newline>body{}\<newline></style>''
      \<and> markup_replace ''<style>\<newline>body{}\<newline></style>'' = Inl (SystemExit diagnostic)\<close>
    by blast
  from style_injection_never_fails [of \<open>''<style>\<newline>  </style>\<newline><p></p>''\<close>] 4 5
  have c: \<open>(\<exists>pre post. ''<style>\<newline>  </style>\<newline><p></p>'' = pre @ style_anchor @ post
          \<and> \<not> contains style_anchor (pre @ butlast style_anchor)
          \<and> style_inject ''<style>\<newline>  </style>\<newline><p></p>''
              = pre @ css_insert @ ''\<newline>\<newline>'' @ style_anchor @ style_inject post)
      \<and> subseq ''<style>\<newline>  </style>\<newline><p></p>''
        (style_inject ''<style>\<newline>  </style>\<newline><p></p>'')\<close>
    by blast
  have \<open>\<not> contains marker (''<style>\<newline>'' @ style_anchor @ ''\<newline><p></p>'')\<close>
    by (simp add: marker_def style_anchor_def)
  moreover have \<open>\<not> contains style_anchor (''<style>\<newline>'' @ butlast style_anchor)\<close>
    by (simp add: style_anchor_def)
  ultimately have \<open>style_inject (''<style>\<newline>'' @ style_anchor @ ''\<newline><p></p>'')
      = ''<style>\<newline>'' @ css_insert @ ''\<newline>\<newline>'' @ style_anchor @ style_inject ''\<newline><p></p>''\<close>
    by (rule style_inject_first)
  moreover have \<open>style_inject ''\<newline><p></p>'' = ''\<newline><p></p>''\<close>
    by (rule style_inject_no_anchor) (simp add: style_anchor_def)
  ultimately have d: \<open>style_inject ''<style>\<newline>  </style>\<newline><p></p>''
       = ''<style>\<newline>'' @ css_insert @ ''\<newline>\<newline>  </style>\<newline><p></p>''\<close>
    by (simp add: style_anchor_def)
  from 1 2 3 4 5 a b c d show ?thesis by blast
qed

end
